theory Spec2Isabelle
  imports Main "HOL-Library.Sublist"
begin

section \<open>Python values\<close>

text \<open>
  The records the program handles are decoded JSON documents. A Python \<open>dict\<close> is an
  association list whose first binding of a key is the one that counts; \<open>None\<close> is
  \<open>JNull\<close>. JSON numbers are the integers (no floating-point numbers), and a
  string is a list of characters with code points below 256.
\<close>

datatype json =
    JNull
  | JBool bool
  | JNum int
  | JStr string
  | JArr "json list"
  | JObj "(string \<times> json) list"

type_synonym dict = "(string \<times> json) list"

text \<open>The exceptions the modelled code can raise.\<close>

datatype py_error = AttributeError | TypeError | ValueError | OverflowError

text \<open>Sequencing of computations that may raise: the first exception wins.\<close>

fun ebind :: "'e + 'a \<Rightarrow> ('a \<Rightarrow> 'e + 'b) \<Rightarrow> 'e + 'b" where
  "ebind (Inl e) f = Inl e"
| "ebind (Inr x) f = f x"

text \<open>Truth value of an object, as \<open>if x:\<close> and \<open>not x\<close> test it.\<close>

fun truthy :: "json \<Rightarrow> bool" where
  "truthy JNull = False"
| "truthy (JBool b) = b"
| "truthy (JNum n) = (n \<noteq> 0)"
| "truthy (JStr s) = (s \<noteq> [])"
| "truthy (JArr xs) = (xs \<noteq> [])"
| "truthy (JObj kvs) = (kvs \<noteq> [])"

text \<open>\<open>d.get(k, default)\<close> on a dict.\<close>

definition dict_get :: "dict \<Rightarrow> string \<Rightarrow> json \<Rightarrow> json" where
  "dict_get d k dflt = (case map_of d k of None \<Rightarrow> dflt | Some v \<Rightarrow> v)"

text \<open>
  \<open>x.get(k, default)\<close> on any decoded value: only a dict has the method, every other
  value raises \<open>AttributeError\<close>.
\<close>

fun py_get :: "json \<Rightarrow> string \<Rightarrow> json \<Rightarrow> py_error + json" where
  "py_get (JObj d) k dflt = Inr (dict_get d k dflt)"
| "py_get _ k dflt = Inl AttributeError"

text \<open>
  The elements a \<open>for\<close> loop, \<open>list(x)\<close> or \<open>extend(x)\<close> draws from a value: the
  elements of a list, the characters of a string, the keys of a dict; the other values
  are not iterable.
\<close>

fun py_iter :: "json \<Rightarrow> py_error + json list" where
  "py_iter (JArr xs) = Inr xs"
| "py_iter (JStr s) = Inr (map (\<lambda>c. JStr [c]) s)"
| "py_iter (JObj d) = Inr (map JStr (remdups (map fst d)))"
| "py_iter _ = Inl TypeError"

section \<open>Strings\<close>

text \<open>\<open>sep.join(xs)\<close> for a list of strings.\<close>

fun py_join :: "string \<Rightarrow> string list \<Rightarrow> string" where
  "py_join sep [] = []"
| "py_join sep [x] = x"
| "py_join sep (x # y # ys) = x @ sep @ py_join sep (y # ys)"

text \<open>
  \<open>re.sub('[...]', repl, s)\<close> for a pattern that is one character class: the scan
  goes left to right and replaces every character of the class.
\<close>

fun re_sub_class :: "char list \<Rightarrow> string \<Rightarrow> string \<Rightarrow> string" where
  "re_sub_class cls repl [] = []"
| "re_sub_class cls repl (c # cs) =
     (if c \<in> set cls then repl @ re_sub_class cls repl cs
      else c # re_sub_class cls repl cs)"

section \<open>Sheet names\<close>

text \<open>The class \<open>[\[\]:*?/\\]\<close> of \<open>sanitize_sheet_name\<close>.\<close>

definition sheet_illegal :: "char list" where
  "sheet_illegal =
     [CHR ''['', CHR '']'', CHR '':'', CHR ''*'', CHR ''?'', CHR ''/'', CHR 0x5C]"

definition sanitize_sheet_name :: "string \<Rightarrow> string" where
  "sanitize_sheet_name name = take 31 (re_sub_class sheet_illegal [] name)"

section \<open>Tag stripping\<close>

text \<open>
  \<open>RE_STRIP\<close> is the pattern \<open></?[^>]+>\<close> (the flag \<open>IGNORECASE\<close> changes
  nothing: the pattern has no letter). \<open>match_body\<close> matches \<open>[^>]+>\<close> at the
  start of its argument and returns what follows the match: the first character must
  not be a closing bracket, the repetition is greedy and runs to the first closing
  bracket (\<open>skip_to_close\<close>), and giving characters back never helps, since the
  character after a shorter run is not a closing bracket.
\<close>

fun skip_to_close :: "string \<Rightarrow> string option" where
  "skip_to_close [] = None"
| "skip_to_close (c # cs) = (if c = CHR ''>'' then Some cs else skip_to_close cs)"

fun match_body :: "string \<Rightarrow> string option" where
  "match_body [] = None"
| "match_body (d # r) = (if d = CHR ''>'' then None else skip_to_close r)"

text \<open>
  The whole pattern at the start of the argument: \<open><\<close>, then the optional \<open>/\<close>,
  tried first as taken and then as left out, then the body.
\<close>

fun match_tag :: "string \<Rightarrow> string option" where
  "match_tag [] = None"
| "match_tag (c # cs) =
     (if c \<noteq> CHR ''<'' then None
      else case (if cs \<noteq> [] \<and> hd cs = CHR ''/'' then match_body (tl cs) else None) of
             Some rest \<Rightarrow> Some rest
           | None \<Rightarrow> match_body cs)"

lemma skip_to_close_shorter: "skip_to_close s = Some r \<Longrightarrow> length r < length s"
  by (induction s) (auto split: if_splits)

lemma match_body_shorter: "match_body s = Some r \<Longrightarrow> length r < length s"
  by (cases s) (auto split: if_splits dest: skip_to_close_shorter)

lemma match_tag_shorter: "match_tag s = Some r \<Longrightarrow> length r < length s"
proof (cases s)
  case Nil
  then show "match_tag s = Some r \<Longrightarrow> length r < length s" by simp
next
  case (Cons c cs)
  assume a: "match_tag s = Some r"
  show "length r < length s"
  proof (cases "cs \<noteq> [] \<and> hd cs = CHR ''/'' \<and> match_body (tl cs) \<noteq> None")
    case True
    with a Cons have "match_body (tl cs) = Some r"
      by (auto split: if_splits option.splits)
    from match_body_shorter [OF this] Cons show ?thesis by simp
  next
    case False
    with a Cons have "match_body cs = Some r"
      by (auto split: if_splits option.splits)
    from match_body_shorter [OF this] Cons show ?thesis by simp
  qed
qed

text \<open>
  \<open>re.sub(RE_STRIP, ' ', s)\<close>: the leftmost match is replaced by one space and the
  scan goes on after it; a character where no match starts is copied.
\<close>

function sub_tags :: "string \<Rightarrow> string" where
  "sub_tags [] = []"
| "sub_tags (c # cs) =
     (case match_tag (c # cs) of
        Some rest \<Rightarrow> CHR '' '' # sub_tags rest
      | None \<Rightarrow> c # sub_tags cs)"
  by pat_completeness auto
termination
  by (relation "measure length") (auto dest: match_tag_shorter simp del: match_tag.simps)

text \<open>
  \<open>s.replace(old, new)\<close> for a non-empty \<open>old\<close>: occurrences are replaced from the
  left and do not overlap.
\<close>

function py_replace :: "string \<Rightarrow> string \<Rightarrow> string \<Rightarrow> string" where
  "py_replace old new [] = []"
| "py_replace old new (c # cs) =
     (if old \<noteq> [] \<and> prefix old (c # cs)
      then new @ py_replace old new (drop (length old) (c # cs))
      else c # py_replace old new cs)"
  by pat_completeness auto
termination
  by (relation "measure (\<lambda>(old, new, s). length s)") (auto simp: neq_Nil_conv)

text \<open>
  \<open>str.isspace\<close> on the code points below 256, and \<open>s.strip()\<close>, which removes the
  white space at both ends.
\<close>

definition is_space :: "char \<Rightarrow> bool" where
  "is_space c = (of_char c \<in> {9, 10, 11, 12, 13, 28, 29, 30, 31, 32, 133, 160 :: nat})"

definition py_strip :: "string \<Rightarrow> string" where
  "py_strip s = rev (dropWhile is_space (rev (dropWhile is_space s)))"

definition strip_tags :: "json \<Rightarrow> py_error + string" where
  "strip_tags html_content =
     (if \<not> truthy html_content then Inr []
      else case html_content of
             JStr s \<Rightarrow>
               Inr (py_strip (py_replace ''  '' '' ''
                      (py_replace [CHR 0x0D] '' ''
                        (py_replace [CHR 0x0A] '' '' (sub_tags s)))))
           | _ \<Rightarrow> Inl TypeError)"

section \<open>Extraction from an article\<close>

definition extract_url :: "dict \<Rightarrow> py_error + json" where
  "extract_url article =
     (if map_of article ''canonicalUrl'' \<noteq> None \<and> truthy (the (map_of article ''canonicalUrl''))
      then Inr (the (map_of article ''canonicalUrl''))
      else case dict_get article ''alternate'' (JArr []) of
             JArr (a # rest) \<Rightarrow> py_get a ''href'' (JStr [])
           | _ \<Rightarrow> Inr (JStr []))"

text \<open>
  \<open>article.get(k) and article[k].get('content')\<close>: the second lookup is only made on
  a true value, and raises when that value is not a dict.
\<close>

definition nested_content :: "dict \<Rightarrow> string \<Rightarrow> py_error + json option" where
  "nested_content article k =
     (if \<not> truthy (dict_get article k JNull) then Inr None
      else ebind (py_get (dict_get article k JNull) ''content'' JNull)
             (\<lambda>v. Inr (if truthy v then Some v else None)))"

definition extract_content :: "dict \<Rightarrow> py_error + string" where
  "extract_content article =
     (if truthy (dict_get article ''fullContent'' JNull)
      then strip_tags (dict_get article ''fullContent'' JNull)
      else ebind (nested_content article ''content'')
        (\<lambda>c. case c of
           Some v \<Rightarrow> strip_tags v
         | None \<Rightarrow> ebind (nested_content article ''summary'')
             (\<lambda>s. case s of
                Some v \<Rightarrow> strip_tags v
              | None \<Rightarrow> Inr [])))"

text \<open>
  The two loops of \<open>extract_type\<close>, with the list \<open>types\<close> as accumulator. An entry
  that is not a dict raises at its \<open>get\<close>; an id equals one of the fixed identifiers
  only when it is that string.
\<close>

fun business_events_loop ::
  "string list \<Rightarrow> string \<Rightarrow> json list \<Rightarrow> string list \<Rightarrow> py_error + string list" where
  "business_events_loop regulatory_ids conference_id [] types = Inr types"
| "business_events_loop regulatory_ids conference_id (be # bes) types =
     ebind (py_get be ''id'' JNull)
       (\<lambda>i. business_events_loop regulatory_ids conference_id bes
          ((if i \<in> JStr ` set regulatory_ids then types @ [''Regulatory''] else types)
           @ (if i = JStr conference_id then [''Conferences''] else [])))"

fun common_topics_loop :: "string \<Rightarrow> json list \<Rightarrow> string list \<Rightarrow> py_error + string list" where
  "common_topics_loop expert_id [] types = Inr types"
| "common_topics_loop expert_id (topic # topics) types =
     ebind (py_get topic ''id'' JNull)
       (\<lambda>i. common_topics_loop expert_id topics
          (if i = JStr expert_id then types @ [''Expert Mentions''] else types))"

text \<open>
  The function \<open>extract_type\<close> of the source (the name is reserved in Isabelle, so it is
  \<open>extract_type_label\<close> here). \<open>', '.join(set(types))\<close> joins the elements of a set in the order in which Python
  iterates over it, which the language leaves open (it follows the strings' hashes).
  The order is the parameter \<open>set_order\<close>: from the list \<open>types\<close> it gives the
  elements of \<open>set(types)\<close> as they are iterated.
\<close>

definition extract_type_label ::
  "(string list \<Rightarrow> string list) \<Rightarrow> dict \<Rightarrow> string list \<Rightarrow> string \<Rightarrow> string
     \<Rightarrow> py_error + string" where
  "extract_type_label set_order article regulatory_ids expert_id conference_id =
     ebind (py_iter (dict_get article ''businessEvents'' (JArr [])))
       (\<lambda>bes. ebind (business_events_loop regulatory_ids conference_id bes [])
          (\<lambda>types1. ebind (py_iter (dict_get article ''commonTopics'' (JArr [])))
             (\<lambda>topics. ebind (common_topics_loop expert_id topics types1)
                (\<lambda>types. Inr (if types \<noteq> [] then py_join '', '' (set_order types) else [])))))"

section \<open>Timestamps\<close>

text \<open>
  \<open>int(x)\<close>: a number is itself, a boolean is 0 or 1, a string is parsed, every other
  value raises \<open>TypeError\<close>. The parser of the interpreter skips the white space at
  the start of the string (the characters 9 to 13 and 32, and the two other spaces of
  the code points below 256, 133 and 160; not the separators 28 to 31, which
  \<open>str.strip\<close> removes), reads an optional sign, then decimal digits with single
  underscores allowed between digits, skips the white space after them and must then be
  at the end of the string. A literal of more than 4300 digits is refused. Every string
  that is refused raises \<open>ValueError\<close>.
\<close>

definition is_digit :: "char \<Rightarrow> bool" where
  "is_digit c = (48 \<le> (of_char c :: nat) \<and> (of_char c :: nat) \<le> 57)"

definition digit_value :: "char \<Rightarrow> nat" where
  "digit_value c = of_char c - 48"

definition is_int_space :: "char \<Rightarrow> bool" where
  "is_int_space c = (of_char c \<in> {9, 10, 11, 12, 13, 32, 133, 160 :: nat})"

definition int_strip :: "string \<Rightarrow> string" where
  "int_strip s = rev (dropWhile is_int_space (rev (dropWhile is_int_space s)))"

fun parse_digits :: "nat \<Rightarrow> string \<Rightarrow> nat option" where
  "parse_digits acc [] = Some acc"
| "parse_digits acc (c # cs) =
     (if is_digit c then parse_digits (10 * acc + digit_value c) cs
      else if c = CHR ''_'' \<and> cs \<noteq> [] \<and> is_digit (hd cs) then parse_digits acc cs
      else None)"

definition parse_int :: "string \<Rightarrow> py_error + int" where
  "parse_int s =
     (let t = int_strip s;
          negative = (t \<noteq> [] \<and> hd t = CHR ''-'');
          body = (if t \<noteq> [] \<and> (hd t = CHR ''-'' \<or> hd t = CHR ''+'') then tl t else t)
      in if body \<noteq> [] \<and> is_digit (hd body) \<and> length (filter is_digit body) \<le> 4300
         then (case parse_digits 0 body of
                 Some n \<Rightarrow> Inr (if negative then - int n else int n)
               | None \<Rightarrow> Inl ValueError)
         else Inl ValueError)"

fun py_int :: "json \<Rightarrow> py_error + int" where
  "py_int (JNum n) = Inr n"
| "py_int (JBool b) = Inr (if b then 1 else 0)"
| "py_int (JStr s) = parse_int s"
| "py_int _ = Inl TypeError"

text \<open>
  The standard library's \<open>datetime.utcfromtimestamp(t).strftime(...)\<close>. The argument
  \<open>int(unix_ms) / 1000\<close> is a floating-point number; for the timestamps the library
  accepts (years 1 to 9999) its whole seconds are \<open>int(unix_ms) div 1000\<close>, rounded
  down, which is what the model passes on. \<open>ord2ymd\<close> follows the library's function of
  that name: it turns the ordinal of a day (1 is the first of January of year 1, 719163
  the first of January 1970) into year, month and day of the proleptic Gregorian
  calendar; \<open>month_day\<close> is its last part, from the day of the year (counted from 0)
  to month and day. A timestamp outside the years 1 to 9999 raises. In the format,
  \<open>%m\<close>, \<open>%d\<close>, \<open>%H\<close>, \<open>%M\<close> and \<open>%S\<close> print two digits; \<open>%Y\<close> prints the
  year with the digits it has, without leading zeros, as the C library of the platform
  does (the year 1 prints as \<open>1\<close>).
\<close>

record datetime =
  dt_year :: int
  dt_month :: int
  dt_day :: int
  dt_hour :: int
  dt_minute :: int
  dt_second :: int

definition days_in_month :: "int list" where
  "days_in_month = [-1, 31, 28, 31, 30, 31, 30, 31, 31, 30, 31, 30, 31]"

definition days_before_month :: "int list" where
  "days_before_month = [-1, 0, 31, 59, 90, 120, 151, 181, 212, 243, 273, 304, 334]"

definition month_day :: "bool \<Rightarrow> int \<Rightarrow> int \<times> int" where
  "month_day leapyear n =
     (let month = (n + 50) div 32;
          preceding = days_before_month ! nat month + (if month > 2 \<and> leapyear then 1 else 0)
      in if preceding > n
         then (month - 1,
               n - (preceding - (days_in_month ! nat (month - 1)
                                  + (if month - 1 = 2 \<and> leapyear then 1 else 0))) + 1)
         else (month, n - preceding + 1))"

definition ord2ymd :: "int \<Rightarrow> int \<times> int \<times> int" where
  "ord2ymd n =
     (let n0 = n - 1;
          n400 = n0 div 146097; r1 = n0 mod 146097;
          n100 = r1 div 36524; r2 = r1 mod 36524;
          n4 = r2 div 1461; r3 = r2 mod 1461;
          n1 = r3 div 365; r4 = r3 mod 365;
          year = n400 * 400 + 1 + n100 * 100 + n4 * 4 + n1
      in if n1 = 4 \<or> n100 = 4 then (year - 1, 12, 31)
         else (year, month_day (n1 = 3 \<and> (n4 \<noteq> 24 \<or> n100 = 3)) r4))"

definition utcfromtimestamp :: "int \<Rightarrow> py_error + datetime" where
  "utcfromtimestamp secs =
     (if secs < -62135596800 \<or> 253402300799 < secs then Inl ValueError
      else
        let (y, m, d) = ord2ymd (secs div 86400 + 719163);
            sod = secs mod 86400
        in Inr \<lparr>dt_year = y, dt_month = m, dt_day = d,
                dt_hour = sod div 3600, dt_minute = sod mod 3600 div 60, dt_second = sod mod 60\<rparr>)"

fun decimal :: "nat \<Rightarrow> string" where
  "decimal n = (if n < 10 then [''0123456789'' ! n]
                else decimal (n div 10) @ [''0123456789'' ! (n mod 10)])"

declare decimal.simps [simp del]

definition zero_pad :: "nat \<Rightarrow> int \<Rightarrow> string" where
  "zero_pad w k = replicate (w - length (decimal (nat k))) (CHR ''0'') @ decimal (nat k)"

definition strftime :: "datetime \<Rightarrow> string" where
  "strftime dt =
     decimal (nat (dt_year dt)) @ ''-'' @ zero_pad 2 (dt_month dt) @ ''-''
     @ zero_pad 2 (dt_day dt)
     @ '' '' @ zero_pad 2 (dt_hour dt) @ '':'' @ zero_pad 2 (dt_minute dt)
     @ '':'' @ zero_pad 2 (dt_second dt)"

text \<open>
  \<open>get_human_date\<close>: \<open>timestamp_text\<close> is the body of the \<open>try\<close>, and the handler
  turns every exception into the empty string.
\<close>

definition timestamp_text :: "json \<Rightarrow> py_error + string" where
  "timestamp_text unix_ms =
     ebind (py_int unix_ms)
       (\<lambda>n. ebind (utcfromtimestamp (n div 1000)) (\<lambda>dt. Inr (strftime dt)))"

definition get_human_date :: "json \<Rightarrow> string" where
  "get_human_date unix_ms = (case timestamp_text unix_ms of Inl e \<Rightarrow> [] | Inr s \<Rightarrow> s)"

section \<open>The article search\<close>

text \<open>
  The search service is a state machine: \<open>post w req\<close> is the outcome of one
  \<open>requests.post\<close> (with \<open>raise_for_status\<close> and the decoding of the body) in the
  state \<open>w\<close> of the world, and the state after it. A request is what varies between
  calls: the alias texts of the first layer, \<open>count\<close>, \<open>newerThan\<close> and the
  \<open>continuation\<close> parameter. An outcome is a failure (any exception of the \<open>try\<close>
  block) or a page: the list under \<open>items\<close> (empty when absent) and the string under
  \<open>continuation\<close>, if any, as the service's interface gives them.
\<close>

record request =
  req_parts :: "string list"
  req_count :: nat
  req_newer_than :: "int option"
  req_continuation :: "string option"

datatype response = Failure | Page "json list" "string option"

type_synonym 'w service = "'w \<Rightarrow> request \<Rightarrow> response \<times> 'w"

text \<open>The truth value of the token: \<open>None\<close> and the empty string are false.\<close>

definition token_truthy :: "string option \<Rightarrow> bool" where
  "token_truthy t = (case t of None \<Rightarrow> False | Some s \<Rightarrow> s \<noteq> [])"

text \<open>The parameters of a page request: the token is attached when it is true.\<close>

definition page_request :: "string list \<Rightarrow> int option \<Rightarrow> string option \<Rightarrow> request" where
  "page_request aliases newer_than continuation =
     \<lparr>req_parts = aliases, req_count = 100, req_newer_than = newer_than,
      req_continuation = (if token_truthy continuation then continuation else None)\<rparr>"

text \<open>
  The \<open>while True\<close> loop of \<open>search_articles\<close>. It may run forever (a service can
  return a new token every time), so the result is an option: \<open>None\<close> is a search
  that never returns. The argument \<open>continuation\<close> is the token sent with the request,
  which is \<open>last_continuation\<close> when the new token is compared. The pauses are not
  modelled.
\<close>

partial_function (option) search_loop ::
  "'w service \<Rightarrow> string list \<Rightarrow> int option \<Rightarrow> 'w \<Rightarrow> json list \<Rightarrow> string option
     \<Rightarrow> (json list \<times> 'w) option" where
  "search_loop post aliases newer_than w all_items continuation =
     (case post w (page_request aliases newer_than continuation) of
        (Failure, w') \<Rightarrow> Some (all_items, w')
      | (Page items token, w') \<Rightarrow>
          if \<not> token_truthy token \<or> token = continuation
          then Some (all_items @ items, w')
          else search_loop post aliases newer_than w' (all_items @ items) token)"

declare search_loop.simps [code]

definition search_articles ::
  "'w service \<Rightarrow> string list \<Rightarrow> int option \<Rightarrow> 'w \<Rightarrow> (json list \<times> 'w) option" where
  "search_articles post aliases newer_than w = search_loop post aliases newer_than w [] None"

section \<open>The report\<close>

text \<open>The fixed identifiers of \<open>main\<close>.\<close>

definition regulatory_ids :: "string list" where
  "regulatory_ids =
     [''nlp/f/businessEvent/regulatory-changes'', ''nlp/f/businessEvent/regulatory-approvals'']"

definition expert_id :: string where
  "expert_id = ''nlp/f/topic/6001''"

definition conference_id :: string where
  "conference_id = ''nlp/f/businessEvent/participation-in-an-event''"

text \<open>\<open>s.find(sub)\<close>: the index of the first occurrence, or -1.\<close>

fun find_from :: "nat \<Rightarrow> string \<Rightarrow> string \<Rightarrow> int" where
  "find_from i sub [] = (if sub = [] then int i else - 1)"
| "find_from i sub (c # cs) = (if prefix sub (c # cs) then int i else find_from (Suc i) sub cs)"

definition py_find :: "string \<Rightarrow> string \<Rightarrow> int" where
  "py_find s sub = find_from 0 sub s"

text \<open>\<open>xs[:n]\<close>: a negative \<open>n\<close> counts from the end.\<close>

definition py_slice_to :: "int \<Rightarrow> 'a list \<Rightarrow> 'a list" where
  "py_slice_to n xs = (if 0 \<le> n then take (nat n) xs else take (length xs - nat (- n)) xs)"

text \<open>
  \<open>', '.join(aliases)\<close> raises \<open>TypeError\<close> unless every alias is a string;
  \<open>as_strings\<close> gives the strings.
\<close>

fun as_strings :: "json list \<Rightarrow> py_error + string list" where
  "as_strings [] = Inr []"
| "as_strings (JStr s # xs) = ebind (as_strings xs) (\<lambda>ss. Inr (s # ss))"
| "as_strings (_ # xs) = Inl TypeError"

text \<open>
  A row of the summary (\<open>Aliases\<close>, \<open>Total Articles\<close>, \<open>Regulatory Articles\<close>,
  \<open>Expert Mentions\<close>, \<open>Conferences\<close>) and a row of a trend's sheet (\<open>id\<close>,
  \<open>title\<close>, \<open>crawled\<close>, \<open>url\<close>, \<open>content\<close>, \<open>type\<close>).
\<close>

record summary_row =
  aliases_label :: string
  total_articles :: nat
  regulatory_articles :: nat
  expert_mentions :: nat
  conferences :: nat

record detail_row =
  row_id :: json
  row_title :: json
  row_crawled :: string
  row_url :: json
  row_content :: string
  row_type :: string

type_synonym sheet = "string \<times> detail_row list"

text \<open>
  \<open>extract_type(a, ...)\<close> for an item of the search: \<open>a.get\<close> raises unless the
  item is a dict. \<open>count_type\<close> is
  \<open>sum(1 for a in articles if extract_type(a, ...).find(label) != -1)\<close>.
\<close>

definition article_type :: "(string list \<Rightarrow> string list) \<Rightarrow> json \<Rightarrow> py_error + string" where
  "article_type set_order article =
     (case article of
        JObj d \<Rightarrow> extract_type_label set_order d regulatory_ids expert_id conference_id
      | _ \<Rightarrow> Inl AttributeError)"

fun count_type ::
  "(string list \<Rightarrow> string list) \<Rightarrow> string \<Rightarrow> json list \<Rightarrow> py_error + nat" where
  "count_type set_order label [] = Inr 0"
| "count_type set_order label (a # articles) =
     ebind (article_type set_order a)
       (\<lambda>t. ebind (count_type set_order label articles)
          (\<lambda>n. Inr ((if py_find t label \<noteq> - 1 then 1 else 0) + n)))"

text \<open>The row of an article, and the rows of a list of articles, in order.\<close>

definition classify :: "(string list \<Rightarrow> string list) \<Rightarrow> json \<Rightarrow> py_error + detail_row" where
  "classify set_order article =
     (case article of
        JObj d \<Rightarrow>
          ebind (extract_url d)
            (\<lambda>u. ebind (extract_content d)
               (\<lambda>c. ebind (extract_type_label set_order d regulatory_ids expert_id conference_id)
                  (\<lambda>t. Inr \<lparr>row_id = dict_get d ''id'' (JStr []),
                             row_title = dict_get d ''title'' (JStr []),
                             row_crawled = get_human_date (dict_get d ''crawled'' (JStr [])),
                             row_url = u, row_content = c, row_type = t\<rparr>)))
      | _ \<Rightarrow> Inl AttributeError)"

fun detail_rows :: "(string list \<Rightarrow> string list) \<Rightarrow> json list \<Rightarrow> py_error + detail_row list" where
  "detail_rows set_order [] = Inr []"
| "detail_rows set_order (a # articles) =
     ebind (classify set_order a)
       (\<lambda>r. ebind (detail_rows set_order articles) (\<lambda>rs. Inr (r # rs)))"

text \<open>
  The aliases of a trend: \<open>list(trend.get('aliases', []))\<close>, or the stripped label
  alone when there is none and the label is not empty, or nothing.
\<close>

definition resolve_aliases :: "json \<Rightarrow> py_error + json list" where
  "resolve_aliases trend =
     ebind (py_get trend ''aliases'' (JArr []))
       (\<lambda>a. ebind (py_iter a)
          (\<lambda>aliases. ebind (py_get trend ''label'' (JStr []))
             (\<lambda>l. case l of
                JStr s \<Rightarrow>
                  Inr (if aliases \<noteq> [] then aliases
                       else if py_strip s \<noteq> [] then [JStr (py_strip s)] else [])
              | _ \<Rightarrow> Inl AttributeError)))"

text \<open>The summary row and the sheet of a trend whose search returned articles.\<close>

definition trend_output ::
  "(string list \<Rightarrow> string list) \<Rightarrow> string list \<Rightarrow> json list \<Rightarrow> py_error + summary_row \<times> sheet" where
  "trend_output set_order aliases articles =
     ebind (count_type set_order ''Regulatory'' articles)
       (\<lambda>r. ebind (count_type set_order ''Expert Mentions'' articles)
          (\<lambda>e. ebind (count_type set_order ''Conferences'' articles)
             (\<lambda>c. ebind (detail_rows set_order articles)
                (\<lambda>rows. Inr (\<lparr>aliases_label = py_join '', '' aliases,
                                 total_articles = length articles,
                                 regulatory_articles = r, expert_mentions = e, conferences = c\<rparr>,
                               (sanitize_sheet_name (hd aliases), rows))))))"

text \<open>
  The body of the loop of \<open>main\<close> for one trend: an exception, a search that never
  returns (\<open>None\<close>), a trend that is skipped, or a summary row and a sheet; with the
  state of the world after it. Printing and pauses are not modelled.
\<close>

definition process_trend ::
  "(string list \<Rightarrow> string list) \<Rightarrow> 'w service \<Rightarrow> int \<Rightarrow> json \<Rightarrow> 'w
     \<Rightarrow> (py_error + (summary_row \<times> sheet) option \<times> 'w) option" where
  "process_trend set_order post newer_than trend w =
     (case resolve_aliases trend of
        Inl e \<Rightarrow> Some (Inl e)
      | Inr aliases \<Rightarrow>
          if aliases = [] then Some (Inr (None, w))
          else (case as_strings aliases of
                  Inl e \<Rightarrow> Some (Inl e)
                | Inr names \<Rightarrow>
                    (case search_articles post names (Some newer_than) w of
                       None \<Rightarrow> None
                     | Some (articles, w') \<Rightarrow>
                         if articles = [] then Some (Inr (None, w'))
                         else (case trend_output set_order names articles of
                                 Inl e \<Rightarrow> Some (Inl e)
                               | Inr out \<Rightarrow> Some (Inr (Some out, w'))))))"

text \<open>The loop of \<open>main\<close> over the trends, with its two accumulators.\<close>

fun report_loop ::
  "(string list \<Rightarrow> string list) \<Rightarrow> 'w service \<Rightarrow> int \<Rightarrow> json list \<Rightarrow> 'w
     \<Rightarrow> summary_row list \<Rightarrow> sheet list
     \<Rightarrow> (py_error + (summary_row list \<times> sheet list) \<times> 'w) option" where
  "report_loop set_order post newer_than [] w summary_rows trend_data =
     Some (Inr ((summary_rows, trend_data), w))"
| "report_loop set_order post newer_than (trend # trends) w summary_rows trend_data =
     (case process_trend set_order post newer_than trend w of
        None \<Rightarrow> None
      | Some (Inl e) \<Rightarrow> Some (Inl e)
      | Some (Inr (None, w')) \<Rightarrow>
          report_loop set_order post newer_than trends w' summary_rows trend_data
      | Some (Inr (Some (row, sheet), w')) \<Rightarrow>
          report_loop set_order post newer_than trends w'
            (summary_rows @ [row]) (trend_data @ [sheet]))"

text \<open>
  \<open>main\<close> from the list of trends on, up to the report that is written to the
  workbook: no report when there is no trend, else the loop over the first
  \<open>num_trends\<close> trends.
\<close>

definition build_report ::
  "(string list \<Rightarrow> string list) \<Rightarrow> 'w service \<Rightarrow> int \<Rightarrow> int \<Rightarrow> json list \<Rightarrow> 'w
     \<Rightarrow> (py_error + (summary_row list \<times> sheet list) option \<times> 'w) option" where
  "build_report set_order post num_trends days_ago trends w =
     (if trends = [] then Some (Inr (None, w))
      else case report_loop set_order post (- days_ago * 24 * 60 * 60 * 1000)
                  (py_slice_to num_trends trends) w [] [] of
             None \<Rightarrow> None
           | Some (Inl e) \<Rightarrow> Some (Inl e)
           | Some (Inr (report, w')) \<Rightarrow> Some (Inr (Some report, w')))"

section \<open>Notions the properties are stated with\<close>

text \<open>The article has no usable \<open>canonicalUrl\<close>: the field is absent or empty.\<close>

definition no_canonical_url :: "dict \<Rightarrow> bool" where
  "no_canonical_url article =
     (case map_of article ''canonicalUrl'' of None \<Rightarrow> True | Some u \<Rightarrow> \<not> truthy u)"








text \<open>
  A tag, as \<open>RE_STRIP\<close> matches it: an opening bracket, one or more characters other
  than a closing bracket, and a closing bracket.
\<close>

definition is_tag :: "string \<Rightarrow> bool" where
  "is_tag t =
     (case t of
        [] \<Rightarrow> False
      | c # cs \<Rightarrow> c = CHR ''<'' \<and> cs \<noteq> [] \<and> last cs = CHR ''>''
                 \<and> butlast cs \<noteq> [] \<and> CHR ''>'' \<notin> set (butlast cs))"

text \<open>
  A tag in the looser words of the specification: an opening bracket, some characters
  (one or more, of any kind), and a closing bracket.
\<close>

definition claimed_tag :: "string \<Rightarrow> bool" where
  "claimed_tag t =
     (case t of
        [] \<Rightarrow> False
      | c # cs \<Rightarrow> c = CHR ''<'' \<and> cs \<noteq> [] \<and> last cs = CHR ''>'' \<and> butlast cs \<noteq> [])"

text \<open>
  A match of \<open>RE_STRIP\<close> starts at the head of a string (\<open>opens\<close>); no match starts
  anywhere in it (\<open>tagfree\<close>).
\<close>

fun opens :: "string \<Rightarrow> bool" where
  "opens (c # d # r) = (c = CHR ''<'' \<and> d \<noteq> CHR ''>'' \<and> CHR ''>'' \<in> set r)"
| "opens _ = False"

fun tagfree :: "string \<Rightarrow> bool" where
  "tagfree [] = True"
| "tagfree (c # cs) = (\<not> opens (c # cs) \<and> tagfree cs)"

text \<open>
  Two services for the examples. The first returns a page with the token \<open>a\<close>, then
  a page with an empty token, then pages without token; the second returns one page and
  fails from then on.
\<close>

definition demo_service :: "nat service" where
  "demo_service n req =
     (if n = 0 then Page [JNum 0] (Some ''a'')
      else if n = 1 then Page [JNum 1] (Some [])
      else Page [JNum 2] None, Suc n)"


definition flaky_service :: "nat service" where
  "flaky_service n req = (if n = 0 then Page [JNum 0] (Some ''a'') else Failure, Suc n)"

text \<open>
  A run of pages that do not stop the loop: \<open>answers post aliases newer_than w c ps\<close>
  is the state the service reaches when, asked from the state \<open>w\<close> with the token
  \<open>c\<close> and then with each token it returns, it answers with the pages \<open>ps\<close> (items
  and token), each with a non-empty token that differs from the one sent.
  \<open>last_token\<close> is the token the next request carries.
\<close>

fun last_token :: "string option \<Rightarrow> (json list \<times> string) list \<Rightarrow> string option" where
  "last_token c [] = c"
| "last_token c (p # ps) = last_token (Some (snd p)) ps"

fun answers ::
  "'w service \<Rightarrow> string list \<Rightarrow> int option \<Rightarrow> 'w \<Rightarrow> string option
     \<Rightarrow> (json list \<times> string) list \<Rightarrow> 'w option" where
  "answers post aliases newer_than w c [] = Some w"
| "answers post aliases newer_than w c (p # ps) =
     (if fst (post w (page_request aliases newer_than c)) = Page (fst p) (Some (snd p))
         \<and> snd p \<noteq> [] \<and> Some (snd p) \<noteq> c
      then answers post aliases newer_than (snd (post w (page_request aliases newer_than c)))
             (Some (snd p)) ps
      else None)"

text \<open>A service that also records the requests it receives.\<close>

definition logged :: "'w service \<Rightarrow> ('w \<times> request list) service" where
  "logged post s req = (fst (post (fst s) req), (snd (post (fst s) req), snd s @ [req]))"

text \<open>
  When a page ends the search. \<open>claimed_stop\<close> is the rule in the words of the
  specification (the token is omitted, or is the one of the page before); \<open>stops\<close>
  is the rule of the code, which also ends on an empty token.
\<close>

definition claimed_stop :: "string option \<Rightarrow> string option \<Rightarrow> bool" where
  "claimed_stop previous token = (token = None \<or> token = previous)"

definition stops :: "string option \<Rightarrow> string option \<Rightarrow> bool" where
  "stops previous token = (token = None \<or> token = Some [] \<or> token = previous)"

text \<open>
  The end-to-end scenario of the specification: one trend with the aliases \<open>foo\<close> and
  \<open>bar\<close>, and a search that returns one page with two articles, the first of them
  regulatory.
\<close>

definition scenario_article1 :: json where
  "scenario_article1 =
     JObj [(''id'', JStr ''a1''), (''title'', JStr ''Rule change''), (''crawled'', JNum 0),
           (''canonicalUrl'', JStr ''https://a.example/1''),
           (''summary'', JObj [(''content'', JStr ''<p>New rule</p>'')]),
           (''businessEvents'',
              JArr [JObj [(''id'', JStr ''nlp/f/businessEvent/regulatory-changes'')]])]"

definition scenario_article2 :: json where
  "scenario_article2 = JObj [(''id'', JStr ''a2''), (''title'', JStr ''Other'')]"

definition scenario_service :: "nat service" where
  "scenario_service n req = (Page [scenario_article1, scenario_article2] None, Suc n)"

definition scenario_trends :: "json list" where
  "scenario_trends = [JObj [(''label'', JStr ''X''), (''aliases'', JArr [JStr ''foo'', JStr ''bar''])]]"


text \<open>A trend whose aliases are empty or absent and whose label, trimmed, is empty.\<close>

definition unnamed_trend :: "json \<Rightarrow> bool" where
  "unnamed_trend trend =
     (case trend of
        JObj d \<Rightarrow>
          dict_get d ''aliases'' (JArr []) = JArr []
          \<and> (case dict_get d ''label'' (JStr []) of JStr l \<Rightarrow> py_strip l = [] | _ \<Rightarrow> False)
      | _ \<Rightarrow> False)"

text \<open>
  A summary row and a sheet belong to a search: for one of the trends, the search for
  its aliases returned, in some state of the world, a list of articles whose rows, one
  per article and in the same order, are the rows of the sheet; the row's total is the
  number of these rows, its label is the joined aliases, and the sheet is named after
  the first alias.
\<close>

definition sheet_matches ::
  "(string list \<Rightarrow> string list) \<Rightarrow> 'w service \<Rightarrow> int \<Rightarrow> json list
     \<Rightarrow> summary_row \<Rightarrow> sheet \<Rightarrow> bool" where
  "sheet_matches set_order post newer_than trends row sheet =
     (\<exists>trend \<in> set trends. \<exists>aliases names w1 w2 articles.
        resolve_aliases trend = Inr aliases \<and> as_strings aliases = Inr names
        \<and> search_articles post names (Some newer_than) w1 = Some (articles, w2)
        \<and> map (classify set_order) articles = map Inr (snd sheet)
        \<and> total_articles row = length (snd sheet)
        \<and> aliases_label row = py_join '', '' names
        \<and> fst sheet = sanitize_sheet_name (hd names))"


definition scenario_row1 :: detail_row where
  "scenario_row1 =
     \<lparr>row_id = JStr ''a1'', row_title = JStr ''Rule change'',
      row_crawled = ''1970-01-01 00:00:00'', row_url = JStr ''https://a.example/1'',
      row_content = ''New rule'', row_type = ''Regulatory''\<rparr>"

definition scenario_row2 :: detail_row where
  "scenario_row2 =
     \<lparr>row_id = JStr ''a2'', row_title = JStr ''Other'', row_crawled = [], row_url = JStr [],
      row_content = [], row_type = []\<rparr>"

definition scenario_summary :: summary_row where
  "scenario_summary =
     \<lparr>aliases_label = ''foo, bar'', total_articles = 2, regulatory_articles = 1,
      expert_mentions = 0, conferences = 0\<rparr>"











section \<open>Properties of the sheet names\<close>





section \<open>Properties of URL extraction\<close>

text \<open>
  C5. URL extraction returns the \<open>canonicalUrl\<close> itself when the field is present and
  non-empty, whatever \<open>alternate\<close> holds; otherwise, when \<open>alternate\<close> is a
  non-empty list whose first entry has an \<open>href\<close>, that \<open>href\<close>; otherwise, when
  \<open>alternate\<close> is absent or empty, the empty string.
\<close>

theorem extract_url_spec:
  "(map_of article ''canonicalUrl'' = Some u \<and> truthy u \<longrightarrow> extract_url article = Inr u)
   \<and> (no_canonical_url article
        \<and> map_of article ''alternate'' = Some (JArr (JObj alt # rest))
        \<and> map_of alt ''href'' = Some h
        \<longrightarrow> extract_url article = Inr h)
   \<and> (no_canonical_url article
        \<and> (map_of article ''alternate'' = None \<or> map_of article ''alternate'' = Some (JArr []))
        \<longrightarrow> extract_url article = Inr (JStr []))"
  by (auto simp: extract_url_def no_canonical_url_def dict_get_def split: option.splits)

theorem extract_url_spec_witness:
  "extract_url [(''canonicalUrl'', JStr ''https://a.example/x''),
                (''alternate'', JArr [JObj [(''href'', JStr ''https://b.example/y'')]])]
     = Inr (JStr ''https://a.example/x'')
   \<and> extract_url [(''canonicalUrl'', JStr []),
                (''alternate'', JArr [JObj [(''href'', JStr ''https://b.example/y'')],
                                      JObj [(''href'', JStr ''https://c.example/z'')]])]
     = Inr (JStr ''https://b.example/y'')
   \<and> extract_url [(''title'', JStr ''t''), (''alternate'', JArr [])] = Inr (JStr [])"
  using extract_url_spec [of "[(''canonicalUrl'', JStr ''https://a.example/x''),
                (''alternate'', JArr [JObj [(''href'', JStr ''https://b.example/y'')]])]"
                "JStr ''https://a.example/x''"]
    extract_url_spec [of "[(''canonicalUrl'', JStr []),
                (''alternate'', JArr [JObj [(''href'', JStr ''https://b.example/y'')],
                                      JObj [(''href'', JStr ''https://c.example/z'')]])]"
                _ "[(''href'', JStr ''https://b.example/y'')]"
                "[JObj [(''href'', JStr ''https://c.example/z'')]]" "JStr ''https://b.example/y''"]
    extract_url_spec [of "[(''title'', JStr ''t''), (''alternate'', JArr [])]"]
  by (simp add: no_canonical_url_def)

text \<open>
  C10. When \<open>canonicalUrl\<close> is absent or empty and \<open>alternate\<close> is a non-empty list
  whose first entry has no \<open>href\<close>, URL extraction returns the empty string: it
  does not raise, and the later entries of \<open>alternate\<close> are not consulted.
\<close>

theorem extract_url_no_href:
  "no_canonical_url article
   \<and> map_of article ''alternate'' = Some (JArr (JObj alt # rest))
   \<and> map_of alt ''href'' = None
   \<longrightarrow> extract_url article = Inr (JStr [])"
  by (auto simp: extract_url_def no_canonical_url_def dict_get_def split: option.splits)

theorem extract_url_no_href_witness:
  "extract_url [(''alternate'', JArr [JObj [(''type'', JStr ''text/html'')],
                                      JObj [(''href'', JStr ''https://c.example/z'')]])]
     = Inr (JStr [])"
  using extract_url_no_href [of "[(''alternate'', JArr [JObj [(''type'', JStr ''text/html'')],
                                      JObj [(''href'', JStr ''https://c.example/z'')]])]"
          "[(''type'', JStr ''text/html'')]" "[JObj [(''href'', JStr ''https://c.example/z'')]]"]
  by (simp add: no_canonical_url_def)

section \<open>Properties of type classification\<close>











section \<open>Properties of tag stripping\<close>

lemma skip_to_close_None: "skip_to_close r = None \<longleftrightarrow> CHR ''>'' \<notin> set r"
  by (induction r) simp_all

lemma match_body_None:
  "match_body s = None \<longleftrightarrow> (case s of [] \<Rightarrow> True | d # r \<Rightarrow> d = CHR ''>'' \<or> CHR ''>'' \<notin> set r)"
  by (cases s) (simp_all add: skip_to_close_None)

lemma match_body_skip: "match_body r = Some x \<Longrightarrow> skip_to_close r \<noteq> None"
  by (cases r) (auto simp: skip_to_close_None split: if_splits)

lemma match_tag_None_iff:
  "match_tag (c # cs) = None \<longleftrightarrow> (c \<noteq> CHR ''<'' \<or> match_body cs = None)"
proof (cases "cs \<noteq> [] \<and> hd cs = CHR ''/''")
  case False
  then show ?thesis by auto
next
  case True
  then obtain r where cs: "cs = CHR ''/'' # r" by (cases cs) auto
  show ?thesis
  proof (cases "match_body r")
    case None
    with cs show ?thesis by simp
  next
    case (Some x)
    from match_body_skip [OF this] have "match_body cs \<noteq> None"
      using cs by simp
    with Some cs show ?thesis by simp
  qed
qed

lemma match_tag_None: "match_tag s = None \<longleftrightarrow> \<not> opens s"
proof (cases s)
  case Nil
  then show ?thesis by simp
next
  case (Cons c cs)
  show ?thesis
  proof (cases cs)
    case Nil
    with Cons show ?thesis by simp
  next
    case (Cons d r)
    with \<open>s = c # cs\<close> show ?thesis
      by (simp only: match_tag_None_iff match_body_None opens.simps list.case) auto
  qed
qed

lemma set_skip_to_close: "skip_to_close s = Some r \<Longrightarrow> set r \<subseteq> set s"
  by (induction s) (auto split: if_splits)

lemma set_match_body: "match_body s = Some r \<Longrightarrow> set r \<subseteq> set s"
  by (cases s) (auto split: if_splits dest: set_skip_to_close)

lemma set_match_tag: "match_tag s = Some r \<Longrightarrow> set r \<subseteq> set s"
proof (cases s)
  case Nil
  then show "match_tag s = Some r \<Longrightarrow> set r \<subseteq> set s" by simp
next
  case (Cons c cs)
  assume a: "match_tag s = Some r"
  show "set r \<subseteq> set s"
  proof (cases "cs \<noteq> [] \<and> hd cs = CHR ''/'' \<and> match_body (tl cs) \<noteq> None")
    case True
    with a Cons have "match_body (tl cs) = Some r"
      by (auto split: if_splits option.splits)
    from set_match_body [OF this] True have "set r \<subseteq> set cs"
      by (cases cs) auto
    with Cons show ?thesis by auto
  next
    case False
    with a Cons have "match_body cs = Some r"
      by (auto split: if_splits option.splits)
    from set_match_body [OF this] Cons show ?thesis by auto
  qed
qed

lemma is_tag_prefix_opens: "is_tag t \<Longrightarrow> prefix t s \<Longrightarrow> opens s"
proof -
  assume t: "is_tag t" and p: "prefix t s"
  from t obtain cs where t1: "t = CHR ''<'' # cs" and cs: "cs \<noteq> []" and l: "last cs = CHR ''>''"
    and b: "butlast cs \<noteq> []" and n: "CHR ''>'' \<notin> set (butlast cs)"
    by (auto simp: is_tag_def split: list.splits)
  from b obtain d body where bd: "butlast cs = d # body" by (cases "butlast cs") auto
  from cs l have "cs = butlast cs @ [CHR ''>'']" by (metis append_butlast_last_id)
  with bd have cs2: "cs = d # body @ [CHR ''>'']" by simp
  from p obtain q where "s = t @ q" by (auto simp: prefix_def)
  with t1 cs2 have "s = CHR ''<'' # d # (body @ CHR ''>'' # q)" by simp
  moreover from n bd have "d \<noteq> CHR ''>''" by auto
  ultimately show ?thesis by simp
qed

lemma tagfree_no_tag: "tagfree s \<Longrightarrow> is_tag t \<Longrightarrow> \<not> sublist t s"
proof (induction s)
  case Nil
  then show ?case by (auto simp: is_tag_def)
next
  case (Cons c cs)
  from Cons.prems have "\<not> opens (c # cs)" and "tagfree cs" by simp_all
  with Cons have "\<not> prefix t (c # cs)" and "\<not> sublist t cs"
    using is_tag_prefix_opens by blast+
  then show ?case by (simp add: sublist_Cons_right)
qed

lemma tagfree_append: "tagfree (xs @ ys) \<Longrightarrow> tagfree xs \<and> tagfree ys"
proof (induction xs)
  case Nil
  then show ?case by simp
next
  case (Cons c xs)
  have "opens (c # xs) \<Longrightarrow> opens (c # xs @ ys)"
    by (cases xs) auto
  with Cons show ?case by auto
qed

lemma not_opens_image:
  assumes "\<not> opens (c # cs)"
    and "cs = [] \<Longrightarrow> ys = []"
    and "\<And>r. cs = CHR ''>'' # r \<Longrightarrow> \<exists>r'. ys = CHR ''>'' # r'"
    and "CHR ''>'' \<notin> set cs \<Longrightarrow> CHR ''>'' \<notin> set ys"
  shows "\<not> opens (c # ys)"
proof (cases "c = CHR ''<''")
  case False
  then show ?thesis by (cases ys) auto
next
  case True
  show ?thesis
  proof (cases cs)
    case Nil
    with assms(2) show ?thesis by simp
  next
    case (Cons d r)
    show ?thesis
    proof (cases "d = CHR ''>''")
      case True
      with Cons assms(3) obtain r' where "ys = CHR ''>'' # r'" by blast
      then show ?thesis by simp
    next
      case False
      with Cons assms(1) \<open>c = CHR ''<''\<close> have "CHR ''>'' \<notin> set cs" by simp
      with assms(4) have "CHR ''>'' \<notin> set ys" by simp
      then show ?thesis by (cases ys rule: opens.cases) auto
    qed
  qed
qed

lemma set_sub_tags: "set (sub_tags s) \<subseteq> insert (CHR '' '') (set s)"
proof (induction s rule: sub_tags.induct)
  case 1
  then show ?case by simp
next
  case (2 c cs)
  show ?case
  proof (cases "match_tag (c # cs)")
    case None
    with 2 show ?thesis by (auto simp del: match_tag.simps)
  next
    case (Some rest)
    from set_match_tag [OF Some] have "set rest \<subseteq> set (c # cs)" .
    with Some 2 show ?thesis by (auto simp del: match_tag.simps)
  qed
qed


lemma sub_tags_close: "sub_tags (CHR ''>'' # r) = CHR ''>'' # sub_tags r"
  by simp

lemma tagfree_sub_tags: "tagfree (sub_tags s)"
proof (induction s rule: sub_tags.induct)
  case 1
  then show ?case by simp
next
  case (2 c cs)
  show ?case
  proof (cases "match_tag (c # cs)")
    case (Some rest)
    with 2 have "tagfree (sub_tags rest)" by simp
    moreover have "\<not> opens (CHR '' '' # sub_tags rest)"
      by (cases "sub_tags rest") auto
    ultimately show ?thesis using Some by (simp del: match_tag.simps)
  next
    case None
    with 2 have t: "tagfree (sub_tags cs)" by simp
    from None have "\<not> opens (c # cs)" using match_tag_None [of "c # cs"] by blast
    then have "\<not> opens (c # sub_tags cs)"
    proof (rule not_opens_image)
      show "cs = [] \<Longrightarrow> sub_tags cs = []" by simp
      show "\<exists>r'. sub_tags cs = CHR ''>'' # r'" if "cs = CHR ''>'' # r" for r
        using that by simp
      show "CHR ''>'' \<notin> set (sub_tags cs)" if "CHR ''>'' \<notin> set cs"
        using that set_sub_tags [of cs] by auto
    qed
    with t None show ?thesis by (simp del: match_tag.simps)
  qed
qed

lemma set_py_replace: "set (py_replace old new s) \<subseteq> set new \<union> set s"
proof (induction old new s rule: py_replace.induct)
  case (1 old new)
  then show ?case by simp
next
  case (2 old new c cs)
  show ?case
  proof (cases "old \<noteq> [] \<and> prefix old (c # cs)")
    case True
    have "set (drop (length old) (c # cs)) \<subseteq> set (c # cs)" by (rule set_drop_subset)
    with True 2 show ?thesis by auto
  next
    case False
    with 2 show ?thesis by auto
  qed
qed

lemma tagfree_plain_append:
  "CHR ''<'' \<notin> set xs \<Longrightarrow> tagfree ys \<Longrightarrow> tagfree (xs @ ys)"
proof (induction xs)
  case Nil
  then show ?case by simp
next
  case (Cons x xs)
  then have "\<not> opens (x # xs @ ys)" by (cases "xs @ ys") auto
  with Cons show ?case by simp
qed

lemma tagfree_py_replace:
  "CHR ''<'' \<notin> set old \<Longrightarrow> CHR ''>'' \<notin> set old \<Longrightarrow> CHR ''<'' \<notin> set new
   \<Longrightarrow> CHR ''>'' \<notin> set new \<Longrightarrow> tagfree s \<Longrightarrow> tagfree (py_replace old new s)"
proof (induction old new s rule: py_replace.induct)
  case (1 old new)
  then show ?case by simp
next
  case (2 old new c cs)
  from "2.prems" have tc: "tagfree cs" and no: "\<not> opens (c # cs)" by simp_all
  show ?case
  proof (cases "old \<noteq> [] \<and> prefix old (c # cs)")
    case True
    have "c # cs = take (length old) (c # cs) @ drop (length old) (c # cs)" by simp
    with "2.prems"(5) have "tagfree (drop (length old) (c # cs))"
      using tagfree_append by metis
    with True "2.IH"(1) "2.prems"
    have "tagfree (py_replace old new (drop (length old) (c # cs)))" by blast
    with "2.prems"(3) have "tagfree (new @ py_replace old new (drop (length old) (c # cs)))"
      by (simp add: tagfree_plain_append)
    with True show ?thesis by simp
  next
    case False
    with "2.IH"(2) "2.prems" tc have t: "tagfree (py_replace old new cs)" by blast
    from no have "\<not> opens (c # py_replace old new cs)"
    proof (rule not_opens_image)
      show "cs = [] \<Longrightarrow> py_replace old new cs = []" by simp
      show "\<exists>r'. py_replace old new cs = CHR ''>'' # r'" if "cs = CHR ''>'' # r" for r
      proof -
        have "\<not> prefix old (CHR ''>'' # r) \<or> old = []"
          using "2.prems"(2) by (cases old) auto
        with that show ?thesis by auto
      qed
      show "CHR ''>'' \<notin> set (py_replace old new cs)" if "CHR ''>'' \<notin> set cs"
        using that "2.prems"(4) set_py_replace [of old new cs] by auto
    qed
    moreover from False have "py_replace old new (c # cs) = c # py_replace old new cs"
      by auto
    ultimately show ?thesis using t by simp
  qed
qed

lemma tagfree_py_strip: "tagfree s \<Longrightarrow> tagfree (py_strip s)"
proof -
  assume t: "tagfree s"
  let ?d = "dropWhile is_space s"
  have "s = takeWhile is_space s @ ?d" by simp
  with t have d: "tagfree ?d" using tagfree_append by metis
  have "rev ?d = takeWhile is_space (rev ?d) @ dropWhile is_space (rev ?d)" by simp
  then have "?d = rev (dropWhile is_space (rev ?d)) @ rev (takeWhile is_space (rev ?d))"
    by (metis rev_append rev_rev_ident)
  with d have "tagfree (rev (dropWhile is_space (rev ?d)))" using tagfree_append by metis
  then show ?thesis by (simp add: py_strip_def)
qed

lemma strip_tags_tagfree: "strip_tags v = Inr out \<Longrightarrow> tagfree out"
proof -
  assume a: "strip_tags v = Inr out"
  show ?thesis
  proof (cases "truthy v")
    case False
    with a show ?thesis by (simp add: strip_tags_def)
  next
    case True
    with a obtain s where v: "v = JStr s"
      by (cases v) (auto simp: strip_tags_def)
    have "tagfree (py_replace [CHR 0x0A] '' '' (sub_tags s))"
      by (rule tagfree_py_replace) (simp_all add: tagfree_sub_tags)
    then have "tagfree (py_replace [CHR 0x0D] '' '' (py_replace [CHR 0x0A] '' '' (sub_tags s)))"
      by (rule tagfree_py_replace [rotated 4]) simp_all
    then have "tagfree (py_replace ''  '' '' '' (py_replace [CHR 0x0D] '' '' (py_replace [CHR 0x0A] '' '' (sub_tags s))))"
      by (rule tagfree_py_replace [rotated 4]) simp_all
    then have "tagfree (py_strip (py_replace ''  '' '' '' (py_replace [CHR 0x0D] '' '' (py_replace [CHR 0x0A] '' '' (sub_tags s)))))"
      by (rule tagfree_py_strip)
    with a v True show ?thesis by (simp add: strip_tags_def)
  qed
qed

lemma extract_content_cases:
  assumes "extract_content article = Inr out"
  shows "out = [] \<or> (\<exists>v. strip_tags v = Inr out)"
proof (cases "truthy (dict_get article ''fullContent'' JNull)")
  case True
  with assms show ?thesis by (auto simp: extract_content_def)
next
  case False
  note f = this
  show ?thesis
  proof (cases "nested_content article ''content''")
    case (Inl e)
    with f assms show ?thesis by (simp add: extract_content_def)
  next
    case (Inr c)
    note c = this
    show ?thesis
    proof (cases c)
      case (Some v)
      with f c assms show ?thesis by (auto simp: extract_content_def)
    next
      case None
      note n = this
      show ?thesis
      proof (cases "nested_content article ''summary''")
        case (Inl e)
        with f c n assms show ?thesis by (simp add: extract_content_def)
      next
        case (Inr u)
        with f c n assms show ?thesis by (cases u) (auto simp: extract_content_def)
      qed
    qed
  qed
qed

lemma extract_content_tagfree: "extract_content article = Inr out \<Longrightarrow> tagfree out"
  using extract_content_cases strip_tags_tagfree by fastforce

text \<open>
  C2. For every HTML string, the plain text that \<open>strip_tags\<close> returns (the tags
  replaced, the newlines and carriage returns replaced, one pass over the double spaces,
  the ends trimmed) has no substring that \<open>RE_STRIP\<close> matches: an opening bracket, one
  or more characters other than a closing bracket, and a closing bracket. The same holds
  for every text that content extraction returns for an article. The characters between
  the brackets have to be other than a closing bracket: with any characters allowed
  there, the property fails, as shown after the example.
\<close>

theorem strip_tags_no_tag:
  "(\<exists>out. strip_tags (JStr html) = Inr out \<and> (\<forall>t. is_tag t \<longrightarrow> \<not> sublist t out))
   \<and> (extract_content article = Inr text \<longrightarrow> (\<forall>t. is_tag t \<longrightarrow> \<not> sublist t text))"
proof -
  obtain out where o: "strip_tags (JStr html) = Inr out"
    by (cases "html = []") (simp_all add: strip_tags_def)
  from strip_tags_tagfree [OF o] have "\<forall>t. is_tag t \<longrightarrow> \<not> sublist t out"
    using tagfree_no_tag by blast
  with o have "\<exists>out. strip_tags (JStr html) = Inr out \<and> (\<forall>t. is_tag t \<longrightarrow> \<not> sublist t out)"
    by blast
  moreover have "\<forall>t. is_tag t \<longrightarrow> \<not> sublist t text" if "extract_content article = Inr text"
    using extract_content_tagfree [OF that] tagfree_no_tag by blast
  ultimately show ?thesis by blast
qed

theorem strip_tags_no_tag_witness:
  "strip_tags (JStr ''<p>Rates <b>rise</b></p>'') = Inr ''Rates rise''
   \<and> is_tag ''<b>'' \<and> \<not> sublist ''<b>'' ''Rates rise''
   \<and> extract_content [(''title'', JStr ''t''), (''summary'', JObj [(''content'', JStr ''a <i>b</i>'')])]
       = Inr ''a b''
   \<and> is_tag ''<i>'' \<and> \<not> sublist ''<i>'' ''a b''"
proof -
  have s: "strip_tags (JStr ''<p>Rates <b>rise</b></p>'') = Inr ''Rates rise''"
    by (simp add: strip_tags_def py_strip_def is_space_def)
  have e: "extract_content [(''title'', JStr ''t''), (''summary'', JObj [(''content'', JStr ''a <i>b</i>'')])]
       = Inr ''a b''"
    by (simp add: extract_content_def nested_content_def dict_get_def strip_tags_def
          py_strip_def is_space_def)
  have b: "is_tag ''<b>''" and i: "is_tag ''<i>''"
    by (simp_all add: is_tag_def)
  note t = strip_tags_no_tag [of "''<p>Rates <b>rise</b></p>''"
      "[(''title'', JStr ''t''), (''summary'', JObj [(''content'', JStr ''a <i>b</i>'')])]" "''a b''"]
  from t s b have nb: "\<not> sublist ''<b>'' ''Rates rise''" by auto
  from t e i have ni: "\<not> sublist ''<i>'' ''a b''" by blast
  from s b nb e i ni show ?thesis by blast
qed

text \<open>
  With a tag taken as an opening bracket, some characters of any kind, and a closing
  bracket, the output can contain one: in \<open><>x>\<close> the pattern matches nowhere (the
  character after the opening bracket is a closing bracket, and no other opening bracket
  follows), so \<open>strip_tags\<close> returns the string unchanged, and the whole of it is an
  opening bracket, the characters \<open>>x\<close>, and a closing bracket.
\<close>

theorem strip_tags_any_characters_counterexample:
  "strip_tags (JStr ''<>x>'') = Inr ''<>x>''
   \<and> claimed_tag ''<>x>'' \<and> sublist ''<>x>'' ''<>x>''"
  by (simp add: strip_tags_def py_strip_def is_space_def claimed_tag_def)

section \<open>Properties of the article search\<close>

lemma search_loop_prefix:
  "answers post al nt w c ps = Some w1
   \<Longrightarrow> search_loop post al nt w acc c
       = search_loop post al nt w1 (acc @ concat (map fst ps)) (last_token c ps)"
proof (induction ps arbitrary: w c acc)
  case Nil
  then show ?case by simp
next
  case (Cons p ps)
  let ?r = "post w (page_request al nt c)"
  from Cons.prems have r: "fst ?r = Page (fst p) (Some (snd p))"
    and t: "snd p \<noteq> []" "Some (snd p) \<noteq> c"
    and a: "answers post al nt (snd ?r) (Some (snd p)) ps = Some w1"
    by (auto split: if_splits)
  from r have r': "?r = (Page (fst p) (Some (snd p)), snd ?r)"
    by (metis prod.collapse)
  have "search_loop post al nt w acc c
          = search_loop post al nt (snd ?r) (acc @ fst p) (Some (snd p))"
    by (subst search_loop.simps, subst r') (use t in \<open>simp add: token_truthy_def\<close>)
  also have "\<dots> = search_loop post al nt w1 ((acc @ fst p) @ concat (map fst ps))
                      (last_token (Some (snd p)) ps)"
    by (rule Cons.IH [OF a])
  finally show ?case by simp
qed

lemma search_loop_stop:
  "post w (page_request al nt c) = (Page items tok, w2) \<Longrightarrow> stops c tok
   \<Longrightarrow> search_loop post al nt w acc c = Some (acc @ items, w2)"
  by (subst search_loop.simps) (auto simp: stops_def token_truthy_def)

lemma search_loop_failure:
  "post w (page_request al nt c) = (Failure, w2)
   \<Longrightarrow> search_loop post al nt w acc c = Some (acc, w2)"
  by (subst search_loop.simps) simp

lemma answers_logged:
  "answers post al nt w c ps = Some w1
   \<Longrightarrow> answers (logged post) al nt (w, log) c ps
       = Some (w1, log @ map (page_request al nt) (butlast (c # map (\<lambda>p. Some (snd p)) ps)))"
proof (induction ps arbitrary: w c log)
  case Nil
  then show ?case by simp
next
  case (Cons p ps)
  let ?r = "post w (page_request al nt c)"
  from Cons.prems have r: "fst ?r = Page (fst p) (Some (snd p))"
    and t: "snd p \<noteq> []" "Some (snd p) \<noteq> c"
    and a: "answers post al nt (snd ?r) (Some (snd p)) ps = Some w1"
    by (auto split: if_splits)
  from Cons.IH [OF a, of "log @ [page_request al nt c]"] r t
  show ?case by (simp add: logged_def)
qed

lemma last_token_conv: "last_token c ps = last (c # map (\<lambda>p. Some (snd p)) ps)"
  by (induction ps arbitrary: c) simp_all


lemma answers_tokens: "answers post al nt w c ps = Some w1 \<Longrightarrow> p \<in> set ps \<Longrightarrow> snd p \<noteq> []"
  by (induction ps arbitrary: w c) (auto split: if_splits)

lemma page_request_token: "t \<noteq> [] \<Longrightarrow> req_continuation (page_request al nt (Some t)) = Some t"
  by (simp add: page_request_def token_truthy_def)

text \<open>
  C3, as the code has it. When the service answers the first request and the following
  ones with pages that do not stop the loop, and then with a page whose token is absent,
  empty, or the token of the page before, the search returns after that page, with the
  items of all the pages in the order of their arrival. It has then made one request per
  page: the first without token, each later one with the token of the page before it.
\<close>

theorem search_articles_pages:
  "answers post al nt w None ps = Some w1
   \<and> post w1 (page_request al nt (last_token None ps)) = (Page items tok, w2)
   \<and> stops (last_token None ps) tok
   \<longrightarrow> search_articles post al nt w = Some (concat (map fst ps) @ items, w2)
       \<and> (\<exists>log. search_articles (logged post) al nt (w, [])
                    = Some (concat (map fst ps) @ items, w2, log)
                 \<and> length log = Suc (length ps)
                 \<and> map req_continuation log = None # map (\<lambda>p. Some (snd p)) ps)"
proof (intro impI, elim conjE)
  assume a: "answers post al nt w None ps = Some w1"
    and r: "post w1 (page_request al nt (last_token None ps)) = (Page items tok, w2)"
    and st: "stops (last_token None ps) tok"
  define toks where "toks = None # map (\<lambda>p. Some (snd p)) ps"
  define sent where "sent = map (page_request al nt) (butlast toks)"
  define log where "log = map (page_request al nt) toks"
  have "search_loop post al nt w [] None
          = search_loop post al nt w1 ([] @ concat (map fst ps)) (last_token None ps)"
    by (rule search_loop_prefix [OF a])
  also have "\<dots> = Some (([] @ concat (map fst ps)) @ items, w2)"
    by (rule search_loop_stop [of post w1 al nt "last_token None ps" items tok w2, OF r st])
  finally have 1: "search_articles post al nt w = Some (concat (map fst ps) @ items, w2)"
    by (simp add: search_articles_def)
  have la: "answers (logged post) al nt (w, []) None ps = Some (w1, sent)"
    using answers_logged [OF a, of "[]"] by (simp add: sent_def toks_def)
  have "toks \<noteq> []" by (simp add: toks_def)
  then have "butlast toks @ [last toks] = toks"
    by (rule append_butlast_last_id)
  moreover have "last toks = last_token None ps"
    by (simp only: toks_def last_token_conv)
  ultimately have "map (page_request al nt) (butlast toks @ [last_token None ps])
                    = map (page_request al nt) toks"
    by simp
  then have "sent @ [page_request al nt (last_token None ps)] = log"
    by (simp add: sent_def log_def)
  with r have lr: "logged post (w1, sent) (page_request al nt (last_token None ps))
                     = (Page items tok, w2, log)"
    by (simp add: logged_def)
  have "search_loop (logged post) al nt (w, []) [] None
          = search_loop (logged post) al nt (w1, sent) ([] @ concat (map fst ps)) (last_token None ps)"
    by (rule search_loop_prefix [OF la])
  also have "\<dots> = Some (([] @ concat (map fst ps)) @ items, w2, log)"
    by (rule search_loop_stop [of "logged post" "(w1, sent)" al nt "last_token None ps"
          items tok "(w2, log)", OF lr st])
  finally have 2: "search_articles (logged post) al nt (w, [])
                     = Some (concat (map fst ps) @ items, w2, log)"
    by (simp add: search_articles_def)
  have "map req_continuation (map (page_request al nt) (map (\<lambda>p. Some (snd p)) ps))
          = map (\<lambda>p. Some (snd p)) ps"
    using answers_tokens [OF a] by (induction ps) (simp_all add: page_request_token)
  then have 3: "map req_continuation log = None # map (\<lambda>p. Some (snd p)) ps"
    by (simp add: log_def toks_def page_request_def token_truthy_def)
  have 4: "length log = Suc (length ps)"
    by (simp add: log_def toks_def)
  from 2 3 4 have "\<exists>log. search_articles (logged post) al nt (w, [])
                    = Some (concat (map fst ps) @ items, w2, log)
                 \<and> length log = Suc (length ps)
                 \<and> map req_continuation log = None # map (\<lambda>p. Some (snd p)) ps"
    by (intro exI [of _ log] conjI)
  with 1 show "search_articles post al nt w = Some (concat (map fst ps) @ items, w2)
       \<and> (\<exists>log. search_articles (logged post) al nt (w, [])
                    = Some (concat (map fst ps) @ items, w2, log)
                 \<and> length log = Suc (length ps)
                 \<and> map req_continuation log = None # map (\<lambda>p. Some (snd p)) ps)"
    by (rule conjI)
qed

theorem search_articles_pages_witness:
  "answers demo_service [''x''] None 0 None [([JNum 0], ''a'')] = Some 1
   \<and> demo_service 1 (page_request [''x''] None (last_token None [([JNum 0], ''a'')]))
       = (Page [JNum 1] (Some []), 2)
   \<and> stops (last_token None [([JNum 0], ''a'')]) (Some [])
   \<and> search_articles demo_service [''x''] None 0 = Some ([JNum 0, JNum 1], 2)"
proof -
  have a: "answers demo_service [''x''] None 0 None [([JNum 0], ''a'')] = Some 1"
    by (simp add: demo_service_def)
  have r: "demo_service 1 (page_request [''x''] None (last_token None [([JNum 0], ''a'')]))
       = (Page [JNum 1] (Some []), 2)"
    by (simp add: demo_service_def)
  have s: "stops (last_token None [([JNum 0], ''a'')]) (Some [])"
    by (simp add: stops_def)
  from search_articles_pages [of demo_service "[''x'']" None 0 "[([JNum 0], ''a'')]" 1
         "[JNum 1]" "Some []" 2] a r s
  have "search_articles demo_service [''x''] None 0 = Some ([JNum 0, JNum 1], 2)"
    by simp
  with a r s show ?thesis by blast
qed

text \<open>
  The stopping rule as the specification words it (the token is omitted, or equals the
  one of the page before) does not hold of the code: the second page of
  \<open>demo_service\<close> carries a token, the empty string, which differs from the token
  \<open>a\<close> of the first page, and the search ends there.
\<close>

theorem search_articles_empty_token_counterexample:
  "search_articles demo_service [''x''] None 0 = Some ([JNum 0, JNum 1], 2)
   \<and> demo_service 1 (page_request [''x''] None (Some ''a'')) = (Page [JNum 1] (Some []), 2)
   \<and> \<not> claimed_stop (Some ''a'') (Some [])"
  by (simp add: search_articles_def search_loop.simps demo_service_def page_request_def
        token_truthy_def claimed_stop_def)

text \<open>
  C4. When a page request fails, the search returns (it raises nothing and runs no
  further): its result is the items of the pages received before the failure, in order.
  A failure of the first request gives the empty list.
\<close>

theorem search_articles_failure:
  "(answers post al nt w None ps = Some w1
    \<and> post w1 (page_request al nt (last_token None ps)) = (Failure, w2)
    \<longrightarrow> search_articles post al nt w = Some (concat (map fst ps), w2))
   \<and> (post w (page_request al nt None) = (Failure, w2)
      \<longrightarrow> search_articles post al nt w = Some ([], w2))"
proof (intro conjI impI)
  assume "answers post al nt w None ps = Some w1
    \<and> post w1 (page_request al nt (last_token None ps)) = (Failure, w2)"
  then have a: "answers post al nt w None ps = Some w1"
    and r: "post w1 (page_request al nt (last_token None ps)) = (Failure, w2)"
    by simp_all
  show "search_articles post al nt w = Some (concat (map fst ps), w2)"
    unfolding search_articles_def
    by (simp add: search_loop_prefix [OF a]
          search_loop_failure [of post w1 al nt "last_token None ps" w2, OF r])
next
  assume "post w (page_request al nt None) = (Failure, w2)"
  then show "search_articles post al nt w = Some ([], w2)"
    unfolding search_articles_def by (rule search_loop_failure [of post w al nt None w2])
qed

theorem search_articles_failure_witness:
  "answers flaky_service [''x''] None 0 None [([JNum 0], ''a'')] = Some 1
   \<and> flaky_service 1 (page_request [''x''] None (last_token None [([JNum 0], ''a'')])) = (Failure, 2)
   \<and> search_articles flaky_service [''x''] None 0 = Some ([JNum 0], 2)
   \<and> flaky_service 5 (page_request [''x''] None None) = (Failure, 6)
   \<and> search_articles flaky_service [''x''] None 5 = Some ([], 6)"
proof -
  have a: "answers flaky_service [''x''] None 0 None [([JNum 0], ''a'')] = Some 1"
    by (simp add: flaky_service_def)
  have r: "flaky_service 1 (page_request [''x''] None (last_token None [([JNum 0], ''a'')])) = (Failure, 2)"
    by (simp add: flaky_service_def)
  have f: "flaky_service 5 (page_request [''x''] None None) = (Failure, 6)"
    by (simp add: flaky_service_def)
  from search_articles_failure [of flaky_service "[''x'']" None 0 "[([JNum 0], ''a'')]" 1 2] a r
  have 1: "search_articles flaky_service [''x''] None 0 = Some ([JNum 0], 2)"
    by simp
  from search_articles_failure [of flaky_service "[''x'']" None 5 "[]" 5 6] f
  have 2: "search_articles flaky_service [''x''] None 5 = Some ([], 6)"
    by simp
  from a r 1 f 2 show ?thesis by blast
qed

section \<open>Properties of the report\<close>

lemma resolve_unnamed: "unnamed_trend trend \<Longrightarrow> resolve_aliases trend = Inr []"
  by (auto simp: unnamed_trend_def resolve_aliases_def split: json.splits)

lemma process_unnamed:
  "unnamed_trend trend \<Longrightarrow> process_trend set_order post nt trend w = Some (Inr (None, w))"
  by (simp add: process_trend_def resolve_unnamed)

lemma report_loop_skip:
  assumes "\<And>w. process_trend set_order post nt trend w = Some (Inr (None, w))"
  shows "report_loop set_order post nt (before @ trend # after) w srs tds
           = report_loop set_order post nt (before @ after) w srs tds"
proof (induction before arbitrary: w srs tds)
  case Nil
  show ?case by (simp add: assms)
next
  case (Cons b before)
  show ?case
    by (cases "process_trend set_order post nt b w")
       (auto simp: Cons.IH split: sum.splits option.splits)
qed

lemma detail_rows_map:
  "detail_rows set_order articles = Inr rows \<Longrightarrow> map (classify set_order) articles = map Inr rows"
proof (induction articles arbitrary: rows)
  case Nil
  then show ?case by simp
next
  case (Cons a articles)
  from Cons.prems obtain r rs where r: "classify set_order a = Inr r"
    and rs: "detail_rows set_order articles = Inr rs" and rows: "rows = r # rs"
    by (cases "classify set_order a"; cases "detail_rows set_order articles") auto
  from Cons.IH [OF rs] r rows show ?case by simp
qed

lemma trend_output_rows:
  assumes "trend_output set_order names articles = Inr (row, sheet)"
  shows "detail_rows set_order articles = Inr (snd sheet) \<and> total_articles row = length articles
         \<and> aliases_label row = py_join '', '' names \<and> fst sheet = sanitize_sheet_name (hd names)"
proof -
  from assms obtain r e c rows where
    "count_type set_order ''Regulatory'' articles = Inr r"
    "count_type set_order ''Expert Mentions'' articles = Inr e"
    "count_type set_order ''Conferences'' articles = Inr c"
    and d: "detail_rows set_order articles = Inr rows"
    by (cases "count_type set_order ''Regulatory'' articles";
        cases "count_type set_order ''Expert Mentions'' articles";
        cases "count_type set_order ''Conferences'' articles";
        cases "detail_rows set_order articles")
       (auto simp: trend_output_def)
  with assms show ?thesis by (auto simp: trend_output_def)
qed

lemma process_trend_sheet:
  assumes "process_trend set_order post nt trend w = Some (Inr (Some (row, sheet), w'))"
  shows "sheet_matches set_order post nt [trend] row sheet"
proof -
  from assms obtain aliases where a: "resolve_aliases trend = Inr aliases"
    by (cases "resolve_aliases trend") (auto simp: process_trend_def)
  with assms have ne: "aliases \<noteq> []"
    by (auto simp: process_trend_def)
  with a assms obtain names where n: "as_strings aliases = Inr names"
    by (cases "as_strings aliases") (auto simp: process_trend_def)
  with a ne assms obtain articles w2 where
    s: "search_articles post names (Some nt) w = Some (articles, w2)"
    by (cases "search_articles post names (Some nt) w") (auto simp: process_trend_def)
  with a ne n assms have o: "trend_output set_order names articles = Inr (row, sheet)"
    by (cases "trend_output set_order names articles")
       (auto simp: process_trend_def split: if_splits)
  from trend_output_rows [OF o] have d: "detail_rows set_order articles = Inr (snd sheet)"
    and t: "total_articles row = length articles"
    and l: "aliases_label row = py_join '', '' names" "fst sheet = sanitize_sheet_name (hd names)"
    by simp_all
  from detail_rows_map [OF d] have m: "map (classify set_order) articles = map Inr (snd sheet)" .
  then have "length articles = length (snd sheet)" by (metis length_map)
  with t have "total_articles row = length (snd sheet)" by simp
  with a n s m l show ?thesis
    unfolding sheet_matches_def by auto
qed

lemma sheet_matches_mono:
  "sheet_matches set_order post nt ts row sheet \<Longrightarrow> set ts \<subseteq> set all
   \<Longrightarrow> sheet_matches set_order post nt all row sheet"
  unfolding sheet_matches_def by blast

lemma report_loop_matches:
  "report_loop set_order post nt ts w srs tds = Some (Inr ((srs', tds'), w'))
   \<Longrightarrow> set ts \<subseteq> set all
   \<Longrightarrow> list_all2 (sheet_matches set_order post nt all) srs tds
   \<Longrightarrow> list_all2 (sheet_matches set_order post nt all) srs' tds'"
proof (induction ts arbitrary: w srs tds)
  case Nil
  then show ?case by simp
next
  case (Cons t ts)
  from Cons.prems(1) obtain out w1 where
    p: "process_trend set_order post nt t w = Some (Inr (out, w1))"
    by (cases "process_trend set_order post nt t w") (auto split: sum.splits)
  show ?case
  proof (cases out)
    case None
    with p Cons.prems(1) have "report_loop set_order post nt ts w1 srs tds = Some (Inr ((srs', tds'), w'))"
      by simp
    from Cons.IH [OF this] Cons.prems show ?thesis by simp
  next
    case (Some rs)
    obtain row sheet where rs: "rs = (row, sheet)" by (cases rs)
    with Some p Cons.prems(1) have
      l: "report_loop set_order post nt ts w1 (srs @ [row]) (tds @ [sheet]) = Some (Inr ((srs', tds'), w'))"
      by simp
    from p Some rs have "sheet_matches set_order post nt [t] row sheet"
      using process_trend_sheet by metis
    with Cons.prems(2) have "sheet_matches set_order post nt all row sheet"
      by (auto intro: sheet_matches_mono)
    with Cons.prems(3) have "list_all2 (sheet_matches set_order post nt all) (srs @ [row]) (tds @ [sheet])"
      by (simp add: list_all2_appendI)
    from Cons.IH [OF l _ this] Cons.prems(2) show ?thesis by simp
  qed
qed

lemma epoch_zero: "get_human_date (JNum 0) = ''1970-01-01 00:00:00''"
proof -
  have u: "utcfromtimestamp 0 = Inr \<lparr>dt_year = 1970, dt_month = 1, dt_day = 1, dt_hour = 0,
             dt_minute = 0, dt_second = 0\<rparr>"
    by (simp add: utcfromtimestamp_def ord2ymd_def month_day_def days_before_month_def
          days_in_month_def Let_def)
  have z: "decimal 1970 = ''1970''" "zero_pad 2 1 = ''01''" "zero_pad 2 0 = ''00''"
    by (simp_all add: zero_pad_def decimal.simps)
  show ?thesis
    by (simp add: get_human_date_def timestamp_text_def u strftime_def z)
qed

lemma scenario_type1: "article_type remdups scenario_article1 = Inr ''Regulatory''"
  by (simp add: article_type_def scenario_article1_def extract_type_label_def dict_get_def
        regulatory_ids_def expert_id_def conference_id_def)

lemma scenario_type2: "article_type remdups scenario_article2 = Inr []"
  by (simp add: article_type_def scenario_article2_def extract_type_label_def dict_get_def)

lemma scenario_classify1: "classify remdups scenario_article1 = Inr scenario_row1"
proof -
  have t: "extract_type_label remdups
             [(''id'', JStr ''a1''), (''title'', JStr ''Rule change''), (''crawled'', JNum 0),
              (''canonicalUrl'', JStr ''https://a.example/1''),
              (''summary'', JObj [(''content'', JStr ''<p>New rule</p>'')]),
              (''businessEvents'',
                 JArr [JObj [(''id'', JStr ''nlp/f/businessEvent/regulatory-changes'')]])]
             regulatory_ids expert_id conference_id = Inr ''Regulatory''"
    using scenario_type1 by (simp add: article_type_def scenario_article1_def)
  show ?thesis
    by (simp add: classify_def scenario_article1_def t scenario_row1_def extract_url_def
          extract_content_def nested_content_def dict_get_def strip_tags_def py_strip_def
          is_space_def epoch_zero)
qed

lemma scenario_classify2: "classify remdups scenario_article2 = Inr scenario_row2"
proof -
  have t: "extract_type_label remdups [(''id'', JStr ''a2''), (''title'', JStr ''Other'')]
             regulatory_ids expert_id conference_id = Inr []"
    using scenario_type2 by (simp add: article_type_def scenario_article2_def)
  have g: "get_human_date (JStr []) = []"
    by (simp add: get_human_date_def timestamp_text_def parse_int_def int_strip_def)
  show ?thesis
    by (simp add: classify_def scenario_article2_def t scenario_row2_def extract_url_def
          extract_content_def nested_content_def dict_get_def g)
qed

lemma scenario_output:
  "trend_output remdups [''foo'', ''bar''] [scenario_article1, scenario_article2]
     = Inr (scenario_summary, (''foo'', [scenario_row1, scenario_row2]))"
  by (simp add: trend_output_def scenario_type1 scenario_type2 scenario_classify1
        scenario_classify2 py_find_def scenario_summary_def sanitize_sheet_name_def
        sheet_illegal_def)

lemma scenario_search:
  "search_articles scenario_service names nt n
     = Some ([scenario_article1, scenario_article2], Suc n)"
  by (simp add: search_articles_def search_loop.simps scenario_service_def token_truthy_def)

lemma scenario_process:
  "process_trend remdups scenario_service nt
     (JObj [(''label'', JStr ''X''), (''aliases'', JArr [JStr ''foo'', JStr ''bar''])]) n
     = Some (Inr (Some (scenario_summary, (''foo'', [scenario_row1, scenario_row2])), Suc n))"
proof -
  have r: "resolve_aliases (JObj [(''label'', JStr ''X''), (''aliases'', JArr [JStr ''foo'', JStr ''bar''])])
             = Inr [JStr ''foo'', JStr ''bar'']"
    by (simp add: resolve_aliases_def dict_get_def)
  have "scenario_article1 \<noteq> JNull" by (simp add: scenario_article1_def)
  then show ?thesis
    by (simp add: process_trend_def r scenario_search scenario_output)
qed

lemma scenario_run:
  "report_loop remdups scenario_service nt scenario_trends n srs tds
     = Some (Inr ((srs @ [scenario_summary], tds @ [(''foo'', [scenario_row1, scenario_row2])]), Suc n))"
  by (simp add: scenario_trends_def scenario_process)

text \<open>
  C1. In the report that the loop over the trends returns, the summary rows and the
  sheets pair up in order, and each pair belongs to the search of one of the trends: the
  sheet has exactly one row per article that the search for that trend's aliases
  returned, in the same order, and the total of the summary row is the number of rows of
  the sheet. The same holds of the report of \<open>build_report\<close>, for the trends it
  selects.
\<close>

theorem report_rows_match_search:
  "(report_loop set_order post nt trends w [] [] = Some (Inr ((srs, tds), w'))
      \<longrightarrow> list_all2 (sheet_matches set_order post nt trends) srs tds)
   \<and> (build_report set_order post num_trends days_ago trends w = Some (Inr (Some (srs, tds), w'))
      \<longrightarrow> list_all2 (sheet_matches set_order post (- days_ago * 24 * 60 * 60 * 1000)
                      (py_slice_to num_trends trends)) srs tds)"
proof (intro conjI impI)
  assume "report_loop set_order post nt trends w [] [] = Some (Inr ((srs, tds), w'))"
  from report_loop_matches [OF this, of trends]
  show "list_all2 (sheet_matches set_order post nt trends) srs tds" by simp
next
  let ?nt = "- days_ago * 24 * 60 * 60 * 1000"
  let ?ts = "py_slice_to num_trends trends"
  assume b: "build_report set_order post num_trends days_ago trends w = Some (Inr (Some (srs, tds), w'))"
  then have "report_loop set_order post ?nt ?ts w [] [] = Some (Inr ((srs, tds), w'))"
    by (cases "report_loop set_order post ?nt ?ts w [] []")
       (auto simp: build_report_def split: if_splits sum.splits)
  from report_loop_matches [OF this, of ?ts]
  show "list_all2 (sheet_matches set_order post ?nt ?ts) srs tds" by simp
qed

theorem report_rows_match_search_witness:
  "build_report remdups scenario_service 1 90 scenario_trends 0
     = Some (Inr (Some ([scenario_summary], [(''foo'', [scenario_row1, scenario_row2])]), 1))
   \<and> total_articles scenario_summary = 2
   \<and> list_all2 (sheet_matches remdups scenario_service (- 90 * 24 * 60 * 60 * 1000)
                  (py_slice_to 1 scenario_trends))
        [scenario_summary] [(''foo'', [scenario_row1, scenario_row2])]"
proof -
  have s: "py_slice_to 1 scenario_trends = scenario_trends"
    by (simp add: py_slice_to_def scenario_trends_def)
  have b: "build_report remdups scenario_service 1 90 scenario_trends 0
     = Some (Inr (Some ([scenario_summary], [(''foo'', [scenario_row1, scenario_row2])]), 1))"
    unfolding build_report_def s scenario_run
    by (simp add: scenario_trends_def)
  have t: "total_articles scenario_summary = 2"
    by (simp add: scenario_summary_def)
  from report_rows_match_search [where set_order = remdups and post = scenario_service
         and num_trends = 1 and days_ago = 90 and trends = scenario_trends and w = 0
         and srs = "[scenario_summary]" and tds = "[(''foo'', [scenario_row1, scenario_row2])]"
         and w' = 1, THEN conjunct2, THEN mp, OF b]
  have "list_all2 (sheet_matches remdups scenario_service (- 90 * 24 * 60 * 60 * 1000)
                  (py_slice_to 1 scenario_trends))
        [scenario_summary] [(''foo'', [scenario_row1, scenario_row2])]" .
  with b t show ?thesis by (intro conjI)
qed

text \<open>
  C8. A trend whose aliases are empty and whose trimmed label is empty is skipped: its
  turn of the loop raises nothing, makes no request and adds neither a summary row nor a
  sheet, and the loop over the trends around it gives what it gives without that trend.
\<close>

theorem unnamed_trend_skipped:
  "unnamed_trend trend
   \<longrightarrow> process_trend set_order post nt trend w = Some (Inr (None, w))
       \<and> report_loop set_order post nt (before @ trend # after) w srs tds
           = report_loop set_order post nt (before @ after) w srs tds"
proof
  assume u: "unnamed_trend trend"
  have "process_trend set_order post nt trend v = Some (Inr (None, v))" for v
    using u by (rule process_unnamed)
  then show "process_trend set_order post nt trend w = Some (Inr (None, w))
       \<and> report_loop set_order post nt (before @ trend # after) w srs tds
           = report_loop set_order post nt (before @ after) w srs tds"
    using report_loop_skip [of set_order post nt trend before after w srs tds] by simp
qed

theorem unnamed_trend_skipped_witness:
  "unnamed_trend (JObj [(''label'', JStr ''  ''), (''aliases'', JArr [])])
   \<and> process_trend remdups scenario_service 0 (JObj [(''label'', JStr ''  ''), (''aliases'', JArr [])]) 0
       = Some (Inr (None, 0))
   \<and> report_loop remdups scenario_service 0
        ([] @ JObj [(''label'', JStr ''  ''), (''aliases'', JArr [])] # scenario_trends) 0 [] []
       = Some (Inr (([scenario_summary], [(''foo'', [scenario_row1, scenario_row2])]), 1))"
proof -
  have u: "unnamed_trend (JObj [(''label'', JStr ''  ''), (''aliases'', JArr [])])"
    by (simp add: unnamed_trend_def dict_get_def py_strip_def is_space_def)
  from unnamed_trend_skipped [of "JObj [(''label'', JStr ''  ''), (''aliases'', JArr [])]"
         remdups scenario_service 0 0 "[]" scenario_trends "[]" "[]"] u
  have p: "process_trend remdups scenario_service 0 (JObj [(''label'', JStr ''  ''), (''aliases'', JArr [])]) 0
       = Some (Inr (None, 0))"
    and r: "report_loop remdups scenario_service 0
        ([] @ JObj [(''label'', JStr ''  ''), (''aliases'', JArr [])] # scenario_trends) 0 [] []
       = report_loop remdups scenario_service 0 ([] @ scenario_trends) 0 [] []"
    by simp_all
  have "report_loop remdups scenario_service 0 ([] @ scenario_trends) 0 [] []
       = Some (Inr (([scenario_summary], [(''foo'', [scenario_row1, scenario_row2])]), 1))"
    by (simp add: scenario_run)
  with r have "report_loop remdups scenario_service 0
        ([] @ JObj [(''label'', JStr ''  ''), (''aliases'', JArr [])] # scenario_trends) 0 [] []
       = Some (Inr (([scenario_summary], [(''foo'', [scenario_row1, scenario_row2])]), 1))"
    by (rule trans)
  with u p show ?thesis by (intro conjI)
qed

section \<open>Properties of timestamp formatting\<close>

































lemma parse_int_error: "parse_int s = Inl e \<Longrightarrow> e = ValueError"
  by (auto simp: parse_int_def Let_def split: if_splits option.splits)




























end
